theory Spec2Isabelle
  imports Main "HOL-Library.AList"
begin

section \<open>GenericInput: a registry of sync classes and a per-instance aggregator\<close>

text \<open>
  The development embeds \<^verbatim>\<open>src/inputs/GenericInput.js\<close>. JavaScript objects used as
  dictionaries are represented by their own enumerable entries: the module-private
  \<^verbatim>\<open>registry\<close> as a map from keys to sync classes, an object that is enumerated with
  \<^verbatim>\<open>for (key in obj)\<close> as the list of its entries in enumeration order. A lookup
  \<^verbatim>\<open>obj[key]\<close> answers the own entries first and the properties every object created as
  \<^verbatim>\<open>{}\<close> inherits from \<^verbatim>\<open>Object.prototype\<close> otherwise.
\<close>

subsection \<open>Values, references, errors\<close>

type_synonym key = string

type_synonym ref = nat

text \<open>
  A sync class is a constructor function written for this purpose; \<^verbatim>\<open>===\<close> on two of them
  compares identity, and none of them is a built-in of \<^verbatim>\<open>Object.prototype\<close>.
\<close>

datatype factory = Factory nat

text \<open>
  Values that are not objects, and the values passed around as options: a primitive or a
  reference to an options object owned by the caller, which holds option fields and no
  methods. Numbers are kept only as far as their truthiness matters.
\<close>

datatype primitive = JsUndefined | JsNull | JsBool bool | JsNum int | JsStr string

datatype jsval = Prim primitive | Obj ref

fun truthy_prim :: "primitive \<Rightarrow> bool" where
  "truthy_prim JsUndefined = False"
| "truthy_prim JsNull = False"
| "truthy_prim (JsBool b) = b"
| "truthy_prim (JsNum n) = (n \<noteq> 0)"
| "truthy_prim (JsStr s) = (s \<noteq> [])"

fun truthy :: "jsval \<Rightarrow> bool" where
  "truthy (Prim p) = truthy_prim p"
| "truthy (Obj r) = True"

text \<open>
  \<open>ConflictError\<close> is \<^verbatim>\<open>new Error('this key is registered to a different sync class')\<close>;
  \<open>TypeError\<close> is what a method call on \<^verbatim>\<open>undefined\<close> raises. An exception leaves the
  state as mutated so far, so both outcomes carry the state.
\<close>

datatype error = ConflictError | TypeError

datatype 's completion = Returns 's | Throws error 's

fun bind :: "'s completion \<Rightarrow> ('s \<Rightarrow> 's completion) \<Rightarrow> 's completion" where
  "bind (Returns s) f = f s"
| "bind (Throws e s) f = Throws e s"

subsection \<open>Property lookup and assignment\<close>

text \<open>
  What \<^verbatim>\<open>Object.prototype\<close> holds under a name: \<^verbatim>\<open>constructor\<close> is the function
  \<^verbatim>\<open>Object\<close>, which \<^verbatim>\<open>new\<close> accepts; the other names hold built-in methods, and
  \<^verbatim>\<open>__proto__\<close> yields \<^verbatim>\<open>Object.prototype\<close> itself, none of which \<^verbatim>\<open>new\<close> accepts. All of
  them are truthy, and none has a \<^verbatim>\<open>subscribe\<close>, \<^verbatim>\<open>unsubscribe\<close> or \<^verbatim>\<open>setOptions\<close> method.
\<close>

datatype builtin = ObjectFunction | NotAConstructor

definition object_prototype :: "key \<Rightarrow> builtin option" where
  "object_prototype key =
     (if key = ''constructor'' then Some ObjectFunction
      else if key \<in> set [''toString'', ''toLocaleString'', ''valueOf'', ''hasOwnProperty'',
                          ''isPrototypeOf'', ''propertyIsEnumerable'', ''__proto__'',
                          ''__defineGetter__'', ''__defineSetter__'',
                          ''__lookupGetter__'', ''__lookupSetter__'']
      then Some NotAConstructor
      else None)"

text \<open>The value of \<^verbatim>\<open>obj[key]\<close>; \<open>Missing\<close> is \<^verbatim>\<open>undefined\<close>.\<close>

datatype 'a property = Own 'a | Inherited builtin | Missing

definition get_property :: "(key \<rightharpoonup> 'a) \<Rightarrow> key \<Rightarrow> 'a property" where
  "get_property obj key =
     (case obj key of
        Some v \<Rightarrow> Own v
      | None \<Rightarrow> (case object_prototype key of Some b \<Rightarrow> Inherited b | None \<Rightarrow> Missing))"

text \<open>
  A \<^verbatim>\<open>for...in\<close> loop visits the keys that are array indices first, in ascending numeric
  order, and the other keys in the order of their creation. An array index is the
  canonical decimal form of a number below \<open>2\<^sup>3\<^sup>2 - 1\<close>.
\<close>

definition is_digit :: "char \<Rightarrow> bool" where
  "is_digit c = (48 \<le> (of_char c :: nat) \<and> (of_char c :: nat) \<le> 57)"

fun decimal :: "nat \<Rightarrow> string \<Rightarrow> nat" where
  "decimal acc [] = acc"
| "decimal acc (c # cs) = decimal (acc * 10 + (of_char c - 48)) cs"

definition array_index :: "key \<Rightarrow> nat option" where
  "array_index key =
     (if key \<noteq> [] \<and> list_all is_digit key \<and> (hd key \<noteq> CHR ''0'' \<or> length key = 1)
         \<and> decimal 0 key < 4294967295
      then Some (decimal 0 key) else None)"

definition visited_before :: "key \<Rightarrow> key \<Rightarrow> bool" where
  "visited_before new old =
     (case array_index new of
        None \<Rightarrow> False
      | Some i \<Rightarrow> (case array_index old of None \<Rightarrow> True | Some j \<Rightarrow> i < j))"

fun place :: "key \<Rightarrow> 'v \<Rightarrow> (key \<times> 'v) list \<Rightarrow> (key \<times> 'v) list" where
  "place key v [] = [(key, v)]"
| "place key v (p # ps) =
     (if visited_before key (fst p) then (key, v) # p # ps else p # place key v ps)"

text \<open>
  The assignment \<^verbatim>\<open>obj[key] = v\<close> on the entries of \<open>obj\<close>: an own property keeps its
  place and takes the new value, a new one is created at its place in the enumeration.
\<close>

definition assign :: "key \<Rightarrow> 'v \<Rightarrow> (key \<times> 'v) list \<Rightarrow> (key \<times> 'v) list" where
  "assign key v al =
     (if key \<in> set (map fst al) then AList.update key v al else place key v al)"

subsection \<open>The registry\<close>

type_synonym registry = "key \<rightharpoonup> factory"

text \<open>
  \<^verbatim>\<open>GenericInput.register\<close>: the argument is the entry list of \<^verbatim>\<open>syncObject\<close>. A stored
  sync class is a function, hence truthy, and so is what \<^verbatim>\<open>registry[key]\<close> inherits; an
  inherited value is not identical to a sync class. The \<^verbatim>\<open>return\<close> of the redundant case
  leaves the function, not only the iteration.
\<close>

fun register :: "(key \<times> factory) list \<Rightarrow> registry \<Rightarrow> registry completion" where
  "register [] registry = Returns registry"
| "register ((key, sync) # rest) registry =
     (case get_property registry key of
        Own registered \<Rightarrow>
          if registered = sync then Returns registry
          else Throws ConflictError registry
      | Inherited b \<Rightarrow> Throws ConflictError registry
      | Missing \<Rightarrow> register rest (registry(key \<mapsto> sync)))"

subsection \<open>Collaborators as a log of calls\<close>

text \<open>
  Event handlers and sync instances are objects of other modules. The aggregator only
  allocates them and calls their methods, so the world outside the aggregator is the
  allocation counter and the log of those calls, oldest first.
  \<open>Subscribe a b\<close> is the call \<^verbatim>\<open>a.subscribe(b)\<close>, \<open>SetOptions a v\<close> is \<^verbatim>\<open>a.setOptions(v)\<close>,
  \<open>Construct c v r\<close> is \<^verbatim>\<open>new c(v)\<close> yielding the object \<open>r\<close>.
\<close>

datatype call =
    NewEventHandler ref
  | SetInputHandler ref
  | SetOutputHandler ref
  | Construct factory jsval ref
  | SetOptions ref jsval
  | Subscribe ref ref
  | Unsubscribe ref ref

record world =
  next_ref :: ref
  calls :: "call list"

definition invoke :: "call \<Rightarrow> world \<Rightarrow> world" where
  "invoke c w = w\<lparr>calls := calls w @ [c]\<rparr>"

definition alloc :: "world \<Rightarrow> ref \<times> world" where
  "alloc w = (next_ref w, w\<lparr>next_ref := Suc (next_ref w)\<rparr>)"

subsection \<open>The aggregator\<close>

text \<open>
  What \<^verbatim>\<open>_syncs\<close> holds under a key: a sync instance, or the object \<^verbatim>\<open>new Object(options)\<close>
  yields (a new plain object, a wrapper of a primitive, or the options object itself),
  which has none of the methods of a sync instance.
\<close>

datatype slot = Source ref | PlainObject

text \<open>
  The fields \<^verbatim>\<open>_eventInput\<close>, \<^verbatim>\<open>_eventOutput\<close> and \<^verbatim>\<open>_syncs\<close> of an instance; the source
  map is the list of its entries in enumeration order.
\<close>

record generic_input =
  eventInput :: ref
  eventOutput :: ref
  syncs :: "(key \<times> slot) list"

type_synonym state = "world \<times> generic_input"

text \<open>
  The argument of \<^verbatim>\<open>addInput\<close>: an array of keys, an object given by its entries, or a
  value that is neither (a primitive).
\<close>

datatype syncs_arg =
    SyncArray "key list"
  | SyncObject "(key \<times> jsval) list"
  | SyncPrim primitive

fun provided :: "syncs_arg \<Rightarrow> bool" where
  "provided (SyncArray ks) = True"
| "provided (SyncObject m) = True"
| "provided (SyncPrim p) = truthy_prim p"

text \<open>
  \<^verbatim>\<open>setOptions\<close>: one call per entry of \<^verbatim>\<open>this._syncs\<close>, in enumeration order; the call
  raises on an entry that has no such method.
\<close>

fun setOptions_loop :: "jsval \<Rightarrow> (key \<times> slot) list \<Rightarrow> world \<Rightarrow> world completion" where
  "setOptions_loop options [] w = Returns w"
| "setOptions_loop options ((key, Source sync) # rest) w =
     setOptions_loop options rest (invoke (SetOptions sync options) w)"
| "setOptions_loop options ((key, PlainObject) # rest) w = Throws TypeError w"

definition setOptions :: "jsval \<Rightarrow> state \<Rightarrow> state completion" where
  "setOptions options s =
     (case s of (w, this) \<Rightarrow>
        (case setOptions_loop options (syncs this) w of
           Returns w' \<Rightarrow> Returns (w', this)
         | Throws e w' \<Rightarrow> Throws e (w', this)))"

text \<open>
  \<^verbatim>\<open>subscribeInput\<close> and \<^verbatim>\<open>unsubscribeInput\<close>: for a key without an own entry,
  \<^verbatim>\<open>this._syncs[key]\<close> is \<^verbatim>\<open>undefined\<close> or an inherited built-in; the method call on it
  raises before anything else happens, as it does on an object that is not a sync instance.
\<close>

definition subscribeInput :: "key \<Rightarrow> state \<Rightarrow> state completion" where
  "subscribeInput key s =
     (case s of (w, this) \<Rightarrow>
        (case get_property (map_of (syncs this)) key of
           Missing \<Rightarrow> Throws TypeError s
         | Inherited b \<Rightarrow> Throws TypeError s
         | Own PlainObject \<Rightarrow> Throws TypeError s
         | Own (Source sync) \<Rightarrow>
             Returns (invoke (Subscribe (eventOutput this) sync)
                        (invoke (Subscribe sync (eventInput this)) w), this)))"

definition unsubscribeInput :: "key \<Rightarrow> state \<Rightarrow> state completion" where
  "unsubscribeInput key s =
     (case s of (w, this) \<Rightarrow>
        (case get_property (map_of (syncs this)) key of
           Missing \<Rightarrow> Throws TypeError s
         | Inherited b \<Rightarrow> Throws TypeError s
         | Own PlainObject \<Rightarrow> Throws TypeError s
         | Own (Source sync) \<Rightarrow>
             Returns (invoke (Unsubscribe (eventOutput this) sync)
                        (invoke (Unsubscribe sync (eventInput this)) w), this)))"

text \<open>
  \<^verbatim>\<open>_addSingleInput\<close>: the guard passes for whatever \<^verbatim>\<open>registry[key]\<close> answers. An
  inherited built-in that is no constructor makes \<^verbatim>\<open>new\<close> raise; the inherited
  \<^verbatim>\<open>Object\<close> yields an object that is stored and on which \<^verbatim>\<open>subscribeInput\<close> then raises.
\<close>

definition addSingleInput :: "registry \<Rightarrow> key \<Rightarrow> jsval \<Rightarrow> state \<Rightarrow> state completion" where
  "addSingleInput registry key options s =
     (case s of (w, this) \<Rightarrow>
        (case get_property registry key of
           Missing \<Rightarrow> Returns s
         | Inherited NotAConstructor \<Rightarrow> Throws TypeError s
         | Inherited ObjectFunction \<Rightarrow>
             subscribeInput key (w, this\<lparr>syncs := assign key PlainObject (syncs this)\<rparr>)
         | Own sync_class \<Rightarrow>
             (case alloc w of (r, w1) \<Rightarrow>
                subscribeInput key
                  (invoke (Construct sync_class options r) w1,
                   this\<lparr>syncs := assign key (Source r) (syncs this)\<rparr>))))"

fun addInput_array :: "registry \<Rightarrow> key list \<Rightarrow> state \<Rightarrow> state completion" where
  "addInput_array registry [] s = Returns s"
| "addInput_array registry (key # rest) s =
     bind (addSingleInput registry key (Prim JsUndefined) s) (addInput_array registry rest)"

fun addInput_object :: "registry \<Rightarrow> (key \<times> jsval) list \<Rightarrow> state \<Rightarrow> state completion" where
  "addInput_object registry [] s = Returns s"
| "addInput_object registry ((key, options) # rest) s =
     bind (addSingleInput registry key options s) (addInput_object registry rest)"

definition addInput :: "registry \<Rightarrow> syncs_arg \<Rightarrow> state \<Rightarrow> state completion" where
  "addInput registry a s =
     (case a of
        SyncArray ks \<Rightarrow> addInput_array registry ks s
      | SyncObject m \<Rightarrow> addInput_object registry m s
      | SyncPrim p \<Rightarrow> Returns s)"

text \<open>The constructor, run in a world \<open>w\<close>; it yields the new world and the new object.\<close>

definition fresh_handlers :: "world \<Rightarrow> state" where
  "fresh_handlers w =
     (case alloc w of (i, w1) \<Rightarrow>
        (case alloc (invoke (NewEventHandler i) w1) of (o', w2) \<Rightarrow>
           (invoke (SetOutputHandler o')
              (invoke (SetInputHandler i) (invoke (NewEventHandler o') w2)),
            \<lparr>eventInput = i, eventOutput = o', syncs = []\<rparr>)))"

definition GenericInput :: "registry \<Rightarrow> syncs_arg \<Rightarrow> jsval \<Rightarrow> world \<Rightarrow> state completion" where
  "GenericInput registry a options w =
     bind (if provided a then addInput registry a (fresh_handlers w)
           else Returns (fresh_handlers w))
       (\<lambda>s. if truthy options then setOptions options s else Returns s)"

subsection \<open>Reading the log\<close>

fun state_of :: "'s completion \<Rightarrow> 's" where
  "state_of (Returns s) = s"
| "state_of (Throws e s) = s"

text \<open>The calls that reach the sync instance \<open>r\<close>: its construction and its option updates.\<close>

fun concerns :: "ref \<Rightarrow> call \<Rightarrow> bool" where
  "concerns r (Construct c v r') = (r' = r)"
| "concerns r (SetOptions r' v) = (r' = r)"
| "concerns r (NewEventHandler h) = False"
| "concerns r (SetInputHandler h) = False"
| "concerns r (SetOutputHandler h) = False"
| "concerns r (Subscribe a b) = False"
| "concerns r (Unsubscribe a b) = False"

definition lifecycle :: "ref \<Rightarrow> call list \<Rightarrow> call list" where
  "lifecycle r cs = filter (concerns r) cs"

text \<open>The constructor invocations of a log: which sync class, with which options.\<close>

fun construction :: "call \<Rightarrow> (factory \<times> jsval) option" where
  "construction (Construct c v r) = Some (c, v)"
| "construction (SetOptions r v) = None"
| "construction (NewEventHandler h) = None"
| "construction (SetInputHandler h) = None"
| "construction (SetOutputHandler h) = None"
| "construction (Subscribe a b) = None"
| "construction (Unsubscribe a b) = None"

definition constructions :: "call list \<Rightarrow> (factory \<times> jsval) list" where
  "constructions cs = List.map_filter construction cs"

text \<open>The entries an \<^verbatim>\<open>addInput\<close> argument stands for: a key of an array carries no options.\<close>

fun entries_of :: "syncs_arg \<Rightarrow> (key \<times> jsval) list" where
  "entries_of (SyncArray ks) = map (\<lambda>k. (k, Prim JsUndefined)) ks"
| "entries_of (SyncObject m) = m"
| "entries_of (SyncPrim p) = []"

subsection \<open>Well-formed states\<close>

text \<open>
  Objects are allocated in increasing order, so every reference in use lies below the
  allocation counter; what the source map holds are sync instances, and the instances
  stored under different keys are different objects.
\<close>

fun refs_of :: "call \<Rightarrow> ref list" where
  "refs_of (NewEventHandler h) = [h]"
| "refs_of (SetInputHandler h) = [h]"
| "refs_of (SetOutputHandler h) = [h]"
| "refs_of (Construct c v r) = [r]"
| "refs_of (SetOptions r v) = [r]"
| "refs_of (Subscribe a b) = [a, b]"
| "refs_of (Unsubscribe a b) = [a, b]"

definition world_ok :: "world \<Rightarrow> bool" where
  "world_ok w = (\<forall>c \<in> set (calls w). \<forall>r \<in> set (refs_of c). r < next_ref w)"

fun source_refs :: "(key \<times> slot) list \<Rightarrow> ref list" where
  "source_refs [] = []"
| "source_refs ((key, Source r) # rest) = r # source_refs rest"
| "source_refs ((key, PlainObject) # rest) = source_refs rest"

definition state_ok :: "state \<Rightarrow> bool" where
  "state_ok s =
     (case s of (w, this) \<Rightarrow>
        world_ok w \<and> eventInput this < next_ref w \<and> eventOutput this < next_ref w \<and>
        distinct (map fst (syncs this)) \<and> distinct (source_refs (syncs this)) \<and>
        PlainObject \<notin> set (map snd (syncs this)) \<and>
        (\<forall>r \<in> set (source_refs (syncs this)). r < next_ref w))"

subsection \<open>The event emitter\<close>

text \<open>
  Modelled from the spec: the event-emitter capability \<^verbatim>\<open>core/EventHandler\<close>, which the
  module requires and which is not among the sources. The spec gives its contract as
  \<^verbatim>\<open>subscribe(sink)\<close>, \<^verbatim>\<open>unsubscribe(sink)\<close> and emission "delivered synchronously to all
  current subscribers", "in subscription order"; after \<^verbatim>\<open>a.subscribe(b)\<close> the events of
  \<open>a\<close> flow into \<open>b\<close>, and unsubscribing severs the subscription. The current
  subscribers of every emitter are obtained by replaying the log.
\<close>

fun handle :: "call \<Rightarrow> (ref \<Rightarrow> ref list) \<Rightarrow> (ref \<Rightarrow> ref list)" where
  "handle (Subscribe a b) subs = (if b \<in> set (subs a) then subs else subs(a := subs a @ [b]))"
| "handle (Unsubscribe a b) subs = subs(a := removeAll b (subs a))"
| "handle (NewEventHandler h) subs = subs"
| "handle (SetInputHandler h) subs = subs"
| "handle (SetOutputHandler h) subs = subs"
| "handle (Construct c v r) subs = subs"
| "handle (SetOptions r v) subs = subs"

text \<open>
  Modelled from the spec: the current subscribers of an emitter, in subscription order,
  after the calls of a log (the state \<^verbatim>\<open>core/EventHandler\<close> would hold).
\<close>

definition subscribers :: "call list \<Rightarrow> ref \<Rightarrow> ref list" where
  "subscribers cs = foldl (\<lambda>subs c. handle c subs) (\<lambda>a. []) cs"

text \<open>An event is a name (\<^verbatim>\<open>start\<close>, \<^verbatim>\<open>update\<close>, \<^verbatim>\<open>end\<close>) with a payload.\<close>

datatype event = Event string jsval

text \<open>
  Modelled from the spec: emission by \<^verbatim>\<open>core/EventHandler\<close>, as the list of deliveries
  (receiver and event) made when \<open>source\<close> emits \<open>ev\<close>: one to each current subscriber.
\<close>

definition emit :: "call list \<Rightarrow> ref \<Rightarrow> event \<Rightarrow> (ref \<times> event) list" where
  "emit cs source ev = map (\<lambda>sink. (sink, ev)) (subscribers cs source)"

section \<open>Property lookup\<close>

lemma get_property_own [simp]: "obj key = Some v \<Longrightarrow> get_property obj key = Own v"
  by (simp add: get_property_def)

lemma get_property_Own_iff: "get_property obj key = Own v \<longleftrightarrow> obj key = Some v"
  by (auto simp: get_property_def split: option.splits)

lemma get_property_Missing_iff:
  "get_property obj key = Missing \<longleftrightarrow> obj key = None \<and> object_prototype key = None"
  by (auto simp: get_property_def split: option.splits)

lemma get_property_Inherited_iff:
  "get_property obj key = Inherited b \<longleftrightarrow> obj key = None \<and> object_prototype key = Some b"
  by (auto simp: get_property_def split: option.splits)

section \<open>Registration\<close>

text \<open>The registry is append-only: whatever the outcome, a bound key keeps its sync class.\<close>

lemma register_keeps_binding:
  "registry key = Some sync \<Longrightarrow> state_of (register entries registry) key = Some sync"
proof (induction entries arbitrary: registry)
  case Nil
  then show ?case by simp
next
  case (Cons entry rest)
  obtain k c where entry: "entry = (k, c)" by (cases entry)
  show ?case
  proof (cases "get_property registry k")
    case Missing
    then have "registry k = None" by (simp add: get_property_Missing_iff)
    with Cons.prems have "k \<noteq> key" by auto
    with Cons.prems have "(registry(k \<mapsto> c)) key = Some sync" by simp
    then have "state_of (register rest (registry(k \<mapsto> c))) key = Some sync"
      by (rule Cons.IH)
    then show ?thesis by (simp add: entry Missing)
  next
    case (Own registered)
    with Cons.prems show ?thesis by (simp add: entry)
  next
    case (Inherited b)
    with Cons.prems show ?thesis by (simp add: entry)
  qed
qed

text \<open>
  A single-key mapping that binds a bound key to another sync class raises, and the
  registry is as before.
\<close>

lemma register_single_conflict:
  "registry key = Some first \<Longrightarrow> first \<noteq> sync \<Longrightarrow>
   register [(key, sync)] registry = Throws ConflictError registry"
  by simp

text \<open>A name that the registry inherits cannot be registered: the call raises.\<close>

lemma register_inherited_name:
  "registry key = None \<Longrightarrow> object_prototype key = Some b \<Longrightarrow>
   register ((key, sync) # rest) registry = Throws ConflictError registry"
  by (simp add: get_property_def)

text \<open>
  C1: a key of the mapping that is already registered with the identical sync class should
  be skipped and the remaining absent keys inserted. With \<^verbatim>\<open>mouse\<close> registered,
  registering \<^verbatim>\<open>{mouse: same class, touch: new class}\<close> returns at \<^verbatim>\<open>mouse\<close>: no error,
  but \<^verbatim>\<open>touch\<close> is not inserted.
\<close>

theorem register_redundant_key_drops_rest:
  "register [(''mouse'', Factory 0), (''touch'', Factory 1)] [''mouse'' \<mapsto> Factory 0]
     = Returns [''mouse'' \<mapsto> Factory 0]
   \<and> [''mouse'' \<mapsto> Factory 0] ''touch'' = None"
  by simp

text \<open>
  C2: binding an already bound key to a distinct sync class should raise. With \<^verbatim>\<open>mouse\<close>
  and \<^verbatim>\<open>touch\<close> registered, registering \<^verbatim>\<open>{mouse: same class, touch: other class}\<close>
  returns at \<^verbatim>\<open>mouse\<close> without raising; the registry keeps the first class of \<^verbatim>\<open>touch\<close>.
\<close>

theorem register_redundant_key_hides_conflict:
  "register [(''mouse'', Factory 0), (''touch'', Factory 2)]
     [''mouse'' \<mapsto> Factory 0, ''touch'' \<mapsto> Factory 1]
     = Returns [''mouse'' \<mapsto> Factory 0, ''touch'' \<mapsto> Factory 1]
   \<and> Factory 2 \<noteq> Factory 1"
  by simp




section \<open>The log and the allocation counter\<close>

lemma calls_invoke [simp]: "calls (invoke c w) = calls w @ [c]"
  by (simp add: invoke_def)

lemma next_ref_invoke [simp]: "next_ref (invoke c w) = next_ref w"
  by (simp add: invoke_def)

lemma lifecycle_Nil [simp]: "lifecycle r [] = []"
  by (simp add: lifecycle_def)

lemma lifecycle_Cons [simp]:
  "lifecycle r (c # cs) = (if concerns r c then c # lifecycle r cs else lifecycle r cs)"
  by (simp add: lifecycle_def)

lemma lifecycle_append [simp]: "lifecycle r (cs @ ds) = lifecycle r cs @ lifecycle r ds"
  by (simp add: lifecycle_def)

lemma constructions_Nil [simp]: "constructions [] = []"
  by (simp add: constructions_def)

lemma constructions_Cons [simp]:
  "constructions (c # cs) =
     (case construction c of None \<Rightarrow> constructions cs | Some x \<Rightarrow> x # constructions cs)"
  by (simp add: constructions_def split: option.splits)

lemma constructions_append [simp]:
  "constructions (cs @ ds) = constructions cs @ constructions ds"
  by (simp add: constructions_def map_filter_def)

lemma concerns_refs_of: "concerns r c \<Longrightarrow> r \<in> set (refs_of c)"
  by (cases c) auto

text \<open>An object that is not allocated yet has received nothing.\<close>

lemma lifecycle_unallocated:
  assumes "world_ok w" and "next_ref w \<le> r"
  shows "lifecycle r (calls w) = []"
proof -
  have "\<not> concerns r c" if "c \<in> set (calls w)" for c
  proof
    assume "concerns r c"
    then have "r \<in> set (refs_of c)" by (rule concerns_refs_of)
    with that assms(1) have "r < next_ref w" by (auto simp: world_ok_def)
    with assms(2) show False by simp
  qed
  then show ?thesis by (simp add: lifecycle_def filter_empty_conv)
qed

section \<open>Subscribing and unsubscribing by key\<close>

lemma subscribeInput_attached:
  "map_of (syncs this) key = Some (Source r) \<Longrightarrow>
   subscribeInput key (w, this) =
     Returns (w\<lparr>calls := calls w @ [Subscribe r (eventInput this), Subscribe (eventOutput this) r]\<rparr>,
              this)"
  by (simp add: subscribeInput_def invoke_def)

lemma unsubscribeInput_attached:
  "map_of (syncs this) key = Some (Source r) \<Longrightarrow>
   unsubscribeInput key (w, this) =
     Returns (w\<lparr>calls := calls w @ [Unsubscribe r (eventInput this), Unsubscribe (eventOutput this) r]\<rparr>,
              this)"
  by (simp add: unsubscribeInput_def invoke_def)

lemma subscribeInput_plain:
  "map_of (syncs this) key = Some PlainObject \<Longrightarrow>
   subscribeInput key (w, this) = Throws TypeError (w, this)"
  by (simp add: subscribeInput_def)

text \<open>
  C10: for a key without an instance in the source map, \<^verbatim>\<open>subscribeInput\<close> and
  \<^verbatim>\<open>unsubscribeInput\<close> raise (the method is called on \<^verbatim>\<open>undefined\<close>, or on an inherited
  built-in that has no such method); neither returns, and the state is as before.
\<close>

theorem subscribeInput_absent_key:
  assumes "map_of (syncs this) key = None"
  shows "subscribeInput key (w, this) = Throws TypeError (w, this)
         \<and> unsubscribeInput key (w, this) = Throws TypeError (w, this)"
  using assms by (simp add: subscribeInput_def unsubscribeInput_def get_property_def
      split: option.splits)

theorem subscribeInput_absent_key_witness:
  "map_of (syncs \<lparr>eventInput = 0, eventOutput = 1, syncs = []\<rparr>) ''mouse'' = None
   \<and> subscribeInput ''mouse''
       (\<lparr>next_ref = 2, calls = []\<rparr>, \<lparr>eventInput = 0, eventOutput = 1, syncs = []\<rparr>)
     = Throws TypeError
         (\<lparr>next_ref = 2, calls = []\<rparr>, \<lparr>eventInput = 0, eventOutput = 1, syncs = []\<rparr>)
   \<and> unsubscribeInput ''mouse''
       (\<lparr>next_ref = 2, calls = []\<rparr>, \<lparr>eventInput = 0, eventOutput = 1, syncs = []\<rparr>)
     = Throws TypeError
         (\<lparr>next_ref = 2, calls = []\<rparr>, \<lparr>eventInput = 0, eventOutput = 1, syncs = []\<rparr>)"
  using subscribeInput_absent_key [where this = "\<lparr>eventInput = 0, eventOutput = 1, syncs = []\<rparr>"
      and key = "''mouse''" and w = "\<lparr>next_ref = 2, calls = []\<rparr>"]
  by simp

section \<open>Event delivery\<close>

lemma subscribers_snoc: "subscribers (cs @ [c]) = handle c (subscribers cs)"
  by (simp add: subscribers_def)

lemma subscribers_snoc2:
  "subscribers (cs @ [c, d]) = handle d (handle c (subscribers cs))"
  by (simp add: subscribers_def)

lemma subscribers_snoc3:
  "subscribers (cs @ [c, d, e]) = handle e (handle d (handle c (subscribers cs)))"
  by (simp add: subscribers_def)

lemma handle_Subscribe_keeps:
  "x \<in> set (subs a) \<Longrightarrow> x \<in> set (handle (Subscribe b c) subs a)"
  by auto

text \<open>
  C8: for a key with an attached source, \<^verbatim>\<open>unsubscribeInput\<close> returns, and with the event
  emitter of the spec an event the source emits afterwards is not delivered to the input
  sink, and an event the output sink emits afterwards is not delivered to the source.
\<close>

theorem unsubscribeInput_severs:
  assumes "map_of (syncs this) key = Some (Source r)"
  shows "\<exists>w'. unsubscribeInput key (w, this) = Returns (w', this)
           \<and> (\<forall>ev. (eventInput this, ev) \<notin> set (emit (calls w') r ev))
           \<and> (\<forall>ev. (r, ev) \<notin> set (emit (calls w') (eventOutput this) ev))"
proof -
  let ?w' = "w\<lparr>calls := calls w @ [Unsubscribe r (eventInput this),
                                    Unsubscribe (eventOutput this) r]\<rparr>"
  have run: "unsubscribeInput key (w, this) = Returns (?w', this)"
    using assms by (rule unsubscribeInput_attached)
  have subs: "subscribers (calls ?w') =
      handle (Unsubscribe (eventOutput this) r)
        (handle (Unsubscribe r (eventInput this)) (subscribers (calls w)))"
    by (simp add: subscribers_snoc2)
  have "eventInput this \<notin> set (subscribers (calls ?w') r)"
    unfolding subs by simp
  moreover have "r \<notin> set (subscribers (calls ?w') (eventOutput this))"
    unfolding subs by simp
  ultimately show ?thesis
    using run by (intro exI [of _ ?w']) (auto simp: emit_def)
qed

theorem unsubscribeInput_severs_witness:
  "map_of (syncs \<lparr>eventInput = 0, eventOutput = 1, syncs = [(''mouse'', Source 2)]\<rparr>) ''mouse'' = Some (Source 2)
   \<and> (0, Event ''update'' (Obj 5))
       \<in> set (emit [Construct (Factory 0) (Prim JsUndefined) 2, Subscribe 2 0, Subscribe 1 2]
                2 (Event ''update'' (Obj 5)))
   \<and> (\<exists>w'. unsubscribeInput ''mouse''
              (\<lparr>next_ref = 3,
                 calls = [Construct (Factory 0) (Prim JsUndefined) 2, Subscribe 2 0,
                          Subscribe 1 2]\<rparr>,
               \<lparr>eventInput = 0, eventOutput = 1, syncs = [(''mouse'', Source 2)]\<rparr>)
              = Returns (w', \<lparr>eventInput = 0, eventOutput = 1, syncs = [(''mouse'', Source 2)]\<rparr>)
          \<and> (0, Event ''update'' (Obj 5)) \<notin> set (emit (calls w') 2 (Event ''update'' (Obj 5)))
          \<and> (2, Event ''update'' (Obj 5)) \<notin> set (emit (calls w') 1 (Event ''update'' (Obj 5))))"
proof -
  have before: "(0, Event ''update'' (Obj 5))
       \<in> set (emit [Construct (Factory 0) (Prim JsUndefined) 2, Subscribe 2 0, Subscribe 1 2]
                2 (Event ''update'' (Obj 5)))"
    by (simp add: emit_def subscribers_def)
  have key: "map_of (syncs \<lparr>eventInput = 0, eventOutput = 1, syncs = [(''mouse'', Source 2)]\<rparr>) ''mouse''
               = Some (Source 2)" by simp
  from unsubscribeInput_severs [OF key,
      of "\<lparr>next_ref = 3,
           calls = [Construct (Factory 0) (Prim JsUndefined) 2, Subscribe 2 0, Subscribe 1 2]\<rparr>"]
    before key
  show ?thesis by auto
qed

section \<open>Assignment to a property\<close>

lemma set_place [simp]: "set (place k v al) = insert (k, v) (set al)"
  by (induction al) auto

lemma map_of_place: "k \<notin> fst ` set al \<Longrightarrow> map_of (place k v al) = (map_of al)(k \<mapsto> v)"
  by (induction al) (auto simp: fun_upd_twist)

lemma update_entry:
  "(k', x) \<in> set (AList.update k v al) \<Longrightarrow> (k', x) = (k, v) \<or> (k', x) \<in> set al"
  by (induction al) (auto split: if_splits)

lemma source_refs_update:
  "set (source_refs (AList.update k (Source r) al)) \<subseteq> insert r (set (source_refs al))"
  by (induction al rule: source_refs.induct) auto

lemma distinct_source_refs_update:
  "distinct (source_refs al) \<Longrightarrow> r \<notin> set (source_refs al) \<Longrightarrow>
   distinct (source_refs (AList.update k (Source r) al))"
proof (induction al rule: source_refs.induct)
  case 1
  then show ?case by simp
next
  case (2 key r' rest)
  then show ?case using source_refs_update [of k r rest] by auto
next
  case (3 key rest)
  then show ?case by simp
qed

lemma source_refs_place:
  "set (source_refs (place k (Source r) al)) = insert r (set (source_refs al))"
  by (induction al rule: source_refs.induct) auto

lemma distinct_source_refs_place:
  "distinct (source_refs al) \<Longrightarrow> r \<notin> set (source_refs al) \<Longrightarrow>
   distinct (source_refs (place k (Source r) al))"
  by (induction al rule: source_refs.induct) (auto simp: source_refs_place)

lemma source_refs_iff: "r \<in> set (source_refs al) \<longleftrightarrow> (\<exists>k. (k, Source r) \<in> set al)"
  by (induction al rule: source_refs.induct) auto

lemma assign_entry:
  "(k', x) \<in> set (assign k v al) \<Longrightarrow> (k', x) = (k, v) \<or> (k', x) \<in> set al"
  using update_entry [of k' x k v al] by (auto simp: assign_def split: if_splits)

lemma map_of_assign: "map_of (assign k v al) = (map_of al)(k \<mapsto> v)"
  by (simp add: assign_def update_conv' map_of_place)

lemma distinct_keys_assign:
  "distinct (map fst al) \<Longrightarrow> distinct (map fst (assign k v al))"
proof (cases "k \<in> set (map fst al)")
  case True
  assume "distinct (map fst al)"
  with True show ?thesis by (simp add: assign_def distinct_update)
next
  case False
  assume d: "distinct (map fst al)"
  have "distinct (map fst (place k v al))" using d False
    by (induction al) auto
  with False show ?thesis by (simp add: assign_def)
qed

lemma source_refs_assign:
  "set (source_refs (assign k (Source r) al)) \<subseteq> insert r (set (source_refs al))"
  using source_refs_update [of k r al] by (auto simp: assign_def source_refs_place)

lemma distinct_source_refs_assign:
  "distinct (source_refs al) \<Longrightarrow> r \<notin> set (source_refs al) \<Longrightarrow>
   distinct (source_refs (assign k (Source r) al))"
  by (simp add: assign_def distinct_source_refs_update distinct_source_refs_place)

lemma no_plain_assign:
  "PlainObject \<notin> snd ` set al \<Longrightarrow> PlainObject \<notin> snd ` set (assign k (Source r) al)"
  using assign_entry [of _ PlainObject k "Source r" al] by force

section \<open>Adding inputs\<close>

lemma addSingleInput_missing:
  "get_property registry key = Missing \<Longrightarrow> addSingleInput registry key options s = Returns s"
  by (simp add: addSingleInput_def split: prod.splits)

lemma addSingleInput_registered:
  "registry key = Some c \<Longrightarrow>
   addSingleInput registry key options (w, this) =
     Returns (w\<lparr>next_ref := Suc (next_ref w),
                calls := calls w @ [Construct c options (next_ref w),
                                    Subscribe (next_ref w) (eventInput this),
                                    Subscribe (eventOutput this) (next_ref w)]\<rparr>,
              this\<lparr>syncs := assign key (Source (next_ref w)) (syncs this)\<rparr>)"
  by (simp add: addSingleInput_def alloc_def subscribeInput_def invoke_def map_of_assign)

text \<open>
  The two ways the step raises: \<^verbatim>\<open>new\<close> on an inherited built-in that is no constructor,
  and \<^verbatim>\<open>subscribe\<close> on the object that the inherited \<^verbatim>\<open>Object\<close> yields, which is stored by
  then.
\<close>

lemma addSingleInput_not_a_constructor:
  "get_property registry key = Inherited NotAConstructor \<Longrightarrow>
   addSingleInput registry key options s = Throws TypeError s"
  by (simp add: addSingleInput_def split: prod.splits)

lemma addSingleInput_object_function:
  "get_property registry key = Inherited ObjectFunction \<Longrightarrow>
   addSingleInput registry key options (w, this) =
     Throws TypeError (w, this\<lparr>syncs := assign key PlainObject (syncs this)\<rparr>)"
  by (simp add: addSingleInput_def subscribeInput_def map_of_assign)

lemma addInput_array_entries:
  "addInput_array registry ks = addInput_object registry (map (\<lambda>k. (k, Prim JsUndefined)) ks)"
proof (induction ks)
  case Nil
  show ?case by (rule ext) simp
next
  case (Cons k ks)
  show ?case by (rule ext) (simp add: Cons.IH)
qed

lemma addInput_entries: "addInput registry a s = addInput_object registry (entries_of a) s"
  by (cases a) (simp_all add: addInput_def addInput_array_entries)

text \<open>
  A key for which \<^verbatim>\<open>registry[key]\<close> is \<^verbatim>\<open>undefined\<close> contributes nothing to \<^verbatim>\<open>addInput\<close>.
\<close>

lemma addInput_array_missing_key:
  assumes "get_property registry key = Missing"
  shows "addInput_array registry ks = addInput_array registry (removeAll key ks)"
proof (induction ks)
  case Nil
  show ?case by simp
next
  case (Cons k ks)
  show ?case
  proof (cases "k = key")
    case True
    show ?thesis
      by (rule ext) (simp add: True Cons.IH [symmetric] addSingleInput_missing assms)
  next
    case False
    then show ?thesis
      by (intro ext) (simp add: Cons.IH [symmetric])
  qed
qed

text \<open>
  Where no key of the argument is an inherited name that the registry does not bind, every
  step returns, and the sync classes of the registered keys are invoked in order with the
  options of their entries.
\<close>

lemma addInput_object_constructions:
  assumes "\<forall>k \<in> fst ` set m. registry k = None \<longrightarrow> object_prototype k = None"
  shows "\<exists>s'. addInput_object registry m s = Returns s'
        \<and> constructions (calls (fst s')) =
            constructions (calls (fst s)) @
            List.map_filter (\<lambda>(k, v). map_option (\<lambda>c. (c, v)) (registry k)) m"
  using assms
proof (induction m arbitrary: s)
  case Nil
  show ?case by simp
next
  case (Cons entry rest)
  obtain k v where entry: "entry = (k, v)" by (cases entry)
  obtain w this where s: "s = (w, this)" by (cases s)
  from Cons.prems have rest: "\<forall>k \<in> fst ` set rest. registry k = None \<longrightarrow> object_prototype k = None"
    by simp
  show ?case
  proof (cases "registry k")
    case None
    with Cons.prems entry have "get_property registry k = Missing"
      by (simp add: get_property_Missing_iff)
    with Cons.IH [OF rest, of s] None show ?thesis
      by (simp add: entry addSingleInput_missing)
  next
    case (Some c)
    let ?s1 = "(w\<lparr>next_ref := Suc (next_ref w),
                  calls := calls w @ [Construct c v (next_ref w),
                                      Subscribe (next_ref w) (eventInput this),
                                      Subscribe (eventOutput this) (next_ref w)]\<rparr>,
                this\<lparr>syncs := assign k (Source (next_ref w)) (syncs this)\<rparr>)"
    have "addSingleInput registry k v s = Returns ?s1"
      unfolding s using Some by (rule addSingleInput_registered)
    with Cons.IH [OF rest, of ?s1] Some show ?thesis
      by (auto simp: entry s)
  qed
qed

text \<open>
  C3: a key that is not in the registry should be skipped by \<^verbatim>\<open>addInput\<close>: nothing
  attached, no error. The key \<^verbatim>\<open>constructor\<close> is in no registry, yet for it
  \<^verbatim>\<open>registry[key]\<close> answers the inherited \<^verbatim>\<open>Object\<close>: \<^verbatim>\<open>addInput(["constructor"])\<close> with
  an empty registry passes the guard, stores \<^verbatim>\<open>new Object(undefined)\<close> in the source map
  and raises in \<^verbatim>\<open>subscribeInput\<close>.
\<close>

theorem addInput_inherited_constructor_raises:
  "(Map.empty :: registry) ''constructor'' = None
   \<and> addInput Map.empty (SyncArray [''constructor''])
       (\<lparr>next_ref = 2, calls = []\<rparr>, \<lparr>eventInput = 0, eventOutput = 1, syncs = []\<rparr>)
     = Throws TypeError
         (\<lparr>next_ref = 2, calls = []\<rparr>,
          \<lparr>eventInput = 0, eventOutput = 1, syncs = [(''constructor'', PlainObject)]\<rparr>)"
  by (simp add: addInput_def addSingleInput_def subscribeInput_def get_property_def
      object_prototype_def assign_def)

text \<open>
  C4: \<^verbatim>\<open>addInput\<close> on a mapping should add each key with the options bound to it. With
  \<^verbatim>\<open>mouse\<close> registered, \<^verbatim>\<open>addInput({toString: o7, mouse: o8})\<close> raises at \<^verbatim>\<open>toString\<close>, for
  which \<^verbatim>\<open>registry[key]\<close> answers an inherited built-in that \<^verbatim>\<open>new\<close> rejects: \<^verbatim>\<open>mouse\<close> is
  never added, and no sync class is invoked.
\<close>

theorem addInput_inherited_name_aborts:
  "addInput [''mouse'' \<mapsto> Factory 0]
     (SyncObject [(''toString'', Obj 7), (''mouse'', Obj 8)])
     (\<lparr>next_ref = 2, calls = []\<rparr>, \<lparr>eventInput = 0, eventOutput = 1, syncs = []\<rparr>)
   = Throws TypeError
       (\<lparr>next_ref = 2, calls = []\<rparr>, \<lparr>eventInput = 0, eventOutput = 1, syncs = []\<rparr>)
   \<and> constructions (calls \<lparr>next_ref = 2, calls = []\<rparr>) = []"
  by (simp add: addInput_def addSingleInput_def get_property_def object_prototype_def)

text \<open>
  C6: for a registered key, the per-key step of \<^verbatim>\<open>addInput\<close> invokes the registered sync
  class with the given options, which yields a new object; it stores the object under the
  key, replacing what was there, and then makes the two subscribe calls. With the event
  emitter of the spec, the events of the new instance flow to the input sink and the
  events of the output sink flow to the new instance. No unsubscribe call is made: an
  instance stored under the key before keeps the subscriptions it had.
\<close>

theorem registered_key_is_attached:
  assumes "registry key = Some c" and "state_ok (w, this)"
  shows "\<exists>w' this'. addSingleInput registry key options (w, this) = Returns (w', this')
           \<and> calls w' = calls w @ [Construct c options (next_ref w),
                                    Subscribe (next_ref w) (eventInput this),
                                    Subscribe (eventOutput this) (next_ref w)]
           \<and> lifecycle (next_ref w) (calls w) = []
           \<and> Source (next_ref w) \<notin> snd ` set (syncs this)
           \<and> map_of (syncs this') = (map_of (syncs this))(key \<mapsto> Source (next_ref w))
           \<and> eventInput this' = eventInput this \<and> eventOutput this' = eventOutput this
           \<and> eventInput this \<in> set (subscribers (calls w') (next_ref w))
           \<and> next_ref w \<in> set (subscribers (calls w') (eventOutput this))
           \<and> (\<forall>p. map_of (syncs this) key = Some (Source p) \<longrightarrow>
                 (eventInput this \<in> set (subscribers (calls w) p)
                    \<longrightarrow> eventInput this \<in> set (subscribers (calls w') p))
                 \<and> (p \<in> set (subscribers (calls w) (eventOutput this))
                    \<longrightarrow> p \<in> set (subscribers (calls w') (eventOutput this))))"
proof -
  let ?r = "next_ref w"
  let ?w' = "w\<lparr>next_ref := Suc ?r,
               calls := calls w @ [Construct c options ?r, Subscribe ?r (eventInput this),
                                   Subscribe (eventOutput this) ?r]\<rparr>"
  let ?this' = "this\<lparr>syncs := assign key (Source ?r) (syncs this)\<rparr>"
  have run: "addSingleInput registry key options (w, this) = Returns (?w', ?this')"
    using assms(1) by (rule addSingleInput_registered)
  from assms(2) have "world_ok w" and below: "\<forall>r \<in> set (source_refs (syncs this)). r < ?r"
    by (simp_all add: state_ok_def)
  then have new: "lifecycle ?r (calls w) = []"
    by (simp add: lifecycle_unallocated)
  have unused: "Source ?r \<notin> snd ` set (syncs this)"
    using below by (force simp: source_refs_iff)
  have subs: "subscribers (calls ?w') =
      handle (Subscribe (eventOutput this) ?r)
        (handle (Subscribe ?r (eventInput this))
           (handle (Construct c options ?r) (subscribers (calls w))))"
    by (simp add: subscribers_snoc3)
  have to_input: "eventInput this \<in> set (subscribers (calls ?w') ?r)"
    unfolding subs by simp
  have from_output: "?r \<in> set (subscribers (calls ?w') (eventOutput this))"
    unfolding subs by simp
  have keeps: "x \<in> set (subscribers (calls ?w') a)" if "x \<in> set (subscribers (calls w) a)" for x a
    unfolding subs using that by (intro handle_Subscribe_keeps) simp
  show ?thesis
    using run new unused to_input from_output keeps
    by (intro exI [of _ ?w'] exI [of _ ?this']) (simp add: map_of_assign)
qed

theorem registered_key_is_attached_witness:
  "[''mouse'' \<mapsto> Factory 0] ''mouse'' = Some (Factory 0)
   \<and> state_ok (\<lparr>next_ref = 3,
                 calls = [NewEventHandler 0, NewEventHandler 1, SetInputHandler 0,
                          SetOutputHandler 1, Construct (Factory 0) (Prim JsUndefined) 2,
                          Subscribe 2 0, Subscribe 1 2]\<rparr>,
               \<lparr>eventInput = 0, eventOutput = 1, syncs = [(''mouse'', Source 2)]\<rparr>)
   \<and> (\<exists>w' this'.
         addSingleInput [''mouse'' \<mapsto> Factory 0] ''mouse'' (Obj 9)
           (\<lparr>next_ref = 3,
              calls = [NewEventHandler 0, NewEventHandler 1, SetInputHandler 0,
                       SetOutputHandler 1, Construct (Factory 0) (Prim JsUndefined) 2,
                       Subscribe 2 0, Subscribe 1 2]\<rparr>,
            \<lparr>eventInput = 0, eventOutput = 1, syncs = [(''mouse'', Source 2)]\<rparr>)
           = Returns (w', this')
         \<and> calls w' =
             [NewEventHandler 0, NewEventHandler 1, SetInputHandler 0,
              SetOutputHandler 1, Construct (Factory 0) (Prim JsUndefined) 2,
              Subscribe 2 0, Subscribe 1 2,
              Construct (Factory 0) (Obj 9) 3, Subscribe 3 0, Subscribe 1 3]
         \<and> map_of (syncs this') ''mouse'' = Some (Source 3)
         \<and> 0 \<in> set (subscribers (calls w') 3)
         \<and> 3 \<in> set (subscribers (calls w') 1)
         \<and> 0 \<in> set (subscribers (calls w') 2)
         \<and> 2 \<in> set (subscribers (calls w') 1))"
proof -
  let ?cs = "[NewEventHandler 0, NewEventHandler 1, SetInputHandler 0,
              SetOutputHandler 1, Construct (Factory 0) (Prim JsUndefined) 2,
              Subscribe 2 0, Subscribe 1 2]"
  let ?w0 = "\<lparr>next_ref = 3, calls = ?cs\<rparr>"
  let ?g = "\<lparr>eventInput = 0, eventOutput = 1, syncs = [(''mouse'', Source 2)]\<rparr>"
  have reg: "[''mouse'' \<mapsto> Factory 0] ''mouse'' = Some (Factory 0)" by simp
  have ok: "state_ok (?w0, ?g)" by (simp add: state_ok_def world_ok_def)
  have before: "0 \<in> set (subscribers ?cs 2)" "2 \<in> set (subscribers ?cs 1)"
    by (simp_all add: subscribers_def)
  from registered_key_is_attached [where registry = "[''mouse'' \<mapsto> Factory 0]"
      and key = "''mouse''" and c = "Factory 0" and w = ?w0 and this = ?g
      and options = "Obj 9"] before reg ok
  have "\<exists>w' this'. addSingleInput [''mouse'' \<mapsto> Factory 0] ''mouse'' (Obj 9) (?w0, ?g)
           = Returns (w', this')
         \<and> calls w' = ?cs @ [Construct (Factory 0) (Obj 9) 3, Subscribe 3 0, Subscribe 1 3]
         \<and> map_of (syncs this') ''mouse'' = Some (Source 3)
         \<and> 0 \<in> set (subscribers (calls w') 3)
         \<and> 3 \<in> set (subscribers (calls w') 1)
         \<and> 0 \<in> set (subscribers (calls w') 2)
         \<and> 2 \<in> set (subscribers (calls w') 1)"
    by fastforce
  with reg ok show ?thesis by simp
qed

section \<open>Well-formed states are preserved\<close>

lemma world_ok_extend:
  assumes "world_ok w" and "next_ref w \<le> n"
    and "\<forall>c \<in> set cs. \<forall>r \<in> set (refs_of c). r < n"
  shows "world_ok (w\<lparr>next_ref := n, calls := calls w @ cs\<rparr>)"
  using assms by (fastforce simp: world_ok_def)

text \<open>
  One step of \<^verbatim>\<open>addInput\<close>, whether it returns or raises: the sinks and every object
  allocated before are untouched, and a sync instance in the source map is either an old
  one or the instance just constructed for this key. If the step returns, the state is
  well formed again.
\<close>

lemma addSingleInput_step:
  assumes ok: "state_ok (w, this)"
  shows "\<exists>w' this'. state_of (addSingleInput registry key options (w, this)) = (w', this')
           \<and> (addSingleInput registry key options (w, this) = Returns (w', this')
                \<longrightarrow> state_ok (w', this'))
           \<and> next_ref w \<le> next_ref w'
           \<and> eventInput this' = eventInput this \<and> eventOutput this' = eventOutput this
           \<and> (\<forall>r. r < next_ref w \<longrightarrow> lifecycle r (calls w') = lifecycle r (calls w))
           \<and> (\<forall>k r. (k, Source r) \<in> set (syncs this') \<longrightarrow>
                 (k, Source r) \<in> set (syncs this)
                 \<or> (next_ref w \<le> r \<and> r < next_ref w' \<and> k = key
                    \<and> (\<exists>c. registry k = Some c
                          \<and> lifecycle r (calls w') = [Construct c options r])))"
proof (cases "get_property registry key")
  case Missing
  then show ?thesis using ok by (simp add: addSingleInput_missing)
next
  case (Inherited b)
  show ?thesis
  proof (cases b)
    case NotAConstructor
    with Inherited show ?thesis by (simp add: addSingleInput_not_a_constructor)
  next
    case ObjectFunction
    let ?this' = "this\<lparr>syncs := assign key PlainObject (syncs this)\<rparr>"
    have run: "addSingleInput registry key options (w, this) = Throws TypeError (w, ?this')"
      using Inherited ObjectFunction by (simp add: addSingleInput_object_function)
    have "(k, Source r) \<in> set (syncs this)" if "(k, Source r) \<in> set (syncs ?this')" for k r
      using that assign_entry [of k "Source r" key PlainObject "syncs this"] by auto
    then show ?thesis
      using run by (intro exI [of _ w] exI [of _ ?this']) simp
  qed
next
  case (Own c)
  then have Some: "registry key = Some c" by (simp add: get_property_Own_iff)
  let ?r = "next_ref w"
  let ?cs = "[Construct c options ?r, Subscribe ?r (eventInput this),
              Subscribe (eventOutput this) ?r]"
  let ?w' = "w\<lparr>next_ref := Suc ?r, calls := calls w @ ?cs\<rparr>"
  let ?this' = "this\<lparr>syncs := assign key (Source ?r) (syncs this)\<rparr>"
  from ok have w: "world_ok w" and io: "eventInput this < ?r" "eventOutput this < ?r"
    and dk: "distinct (map fst (syncs this))" and dv: "distinct (source_refs (syncs this))"
    and np: "PlainObject \<notin> snd ` set (syncs this)"
    and below: "\<forall>r \<in> set (source_refs (syncs this)). r < ?r"
    by (simp_all add: state_ok_def)
  have run: "addSingleInput registry key options (w, this) = Returns (?w', ?this')"
    using Some by (rule addSingleInput_registered)
  have w': "world_ok ?w'"
    using w io by (intro world_ok_extend) auto
  have fresh: "?r \<notin> set (source_refs (syncs this))"
    using below by auto
  have dv': "distinct (source_refs (syncs ?this'))"
    using dv fresh by (simp add: distinct_source_refs_assign)
  have dk': "distinct (map fst (syncs ?this'))"
    using dk by (simp add: distinct_keys_assign)
  have np': "PlainObject \<notin> snd ` set (syncs ?this')"
    using np by (simp add: no_plain_assign)
  have below': "\<forall>r \<in> set (source_refs (syncs ?this')). r < Suc ?r"
    using below source_refs_assign [of key ?r "syncs this"] by fastforce
  have ok': "state_ok (?w', ?this')"
    using w' io dk' dv' np' below' by (simp add: state_ok_def)
  have new: "lifecycle ?r (calls ?w') = [Construct c options ?r]"
    using lifecycle_unallocated [OF w, of ?r] by simp
  have ents: "\<forall>k r. (k, Source r) \<in> set (syncs ?this') \<longrightarrow>
                 (k, Source r) \<in> set (syncs this)
                 \<or> (?r \<le> r \<and> r < next_ref ?w' \<and> k = key
                    \<and> (\<exists>c. registry k = Some c
                          \<and> lifecycle r (calls ?w') = [Construct c options r]))"
  proof (intro allI impI)
    fix k r
    assume "(k, Source r) \<in> set (syncs ?this')"
    then have "(k, Source r) = (key, Source ?r) \<or> (k, Source r) \<in> set (syncs this)"
      using assign_entry [of k "Source r" key "Source ?r" "syncs this"] by simp
    then show "(k, Source r) \<in> set (syncs this)
                 \<or> (?r \<le> r \<and> r < next_ref ?w' \<and> k = key
                    \<and> (\<exists>c. registry k = Some c
                          \<and> lifecycle r (calls ?w') = [Construct c options r]))"
      using new Some by auto
  qed
  show ?thesis
    using run ok' ents by (intro exI [of _ ?w'] exI [of _ ?this']) simp
qed

text \<open>The same for the whole loop, over the entries of the argument.\<close>

lemma addInput_object_steps:
  assumes "state_ok (w, this)"
  shows "\<exists>w' this'. state_of (addInput_object registry m (w, this)) = (w', this')
           \<and> (addInput_object registry m (w, this) = Returns (w', this')
                \<longrightarrow> state_ok (w', this'))
           \<and> next_ref w \<le> next_ref w'
           \<and> eventInput this' = eventInput this \<and> eventOutput this' = eventOutput this
           \<and> (\<forall>r. r < next_ref w \<longrightarrow> lifecycle r (calls w') = lifecycle r (calls w))
           \<and> (\<forall>k r. (k, Source r) \<in> set (syncs this') \<longrightarrow>
                 (k, Source r) \<in> set (syncs this)
                 \<or> (next_ref w \<le> r \<and> r < next_ref w'
                    \<and> (\<exists>c v. registry k = Some c \<and> (k, v) \<in> set m
                          \<and> lifecycle r (calls w') = [Construct c v r])))"
  using assms
proof (induction m arbitrary: w this)
  case Nil
  then show ?case by simp
next
  case (Cons entry rest)
  obtain k0 v0 where entry: "entry = (k0, v0)" by (cases entry)
  let ?o1 = "addSingleInput registry k0 v0 (w, this)"
  from addSingleInput_step [OF Cons.prems, of registry k0 v0]
  obtain w1 this1 where
    st1: "state_of ?o1 = (w1, this1)"
    and ok1: "?o1 = Returns (w1, this1) \<Longrightarrow> state_ok (w1, this1)"
    and le1: "next_ref w \<le> next_ref w1"
    and io1: "eventInput this1 = eventInput this" "eventOutput this1 = eventOutput this"
    and old1: "\<And>r. r < next_ref w \<Longrightarrow> lifecycle r (calls w1) = lifecycle r (calls w)"
    and ent1: "\<And>k r. (k, Source r) \<in> set (syncs this1) \<Longrightarrow>
                 (k, Source r) \<in> set (syncs this)
                 \<or> (next_ref w \<le> r \<and> r < next_ref w1 \<and> k = k0
                    \<and> (\<exists>c. registry k = Some c
                          \<and> lifecycle r (calls w1) = [Construct c v0 r]))"
    by blast
  have ent1': "(k, Source r) \<in> set (syncs this)
                 \<or> (next_ref w \<le> r \<and> r < next_ref w1
                    \<and> (\<exists>c v. registry k = Some c \<and> (k, v) \<in> set (entry # rest)
                          \<and> lifecycle r (calls w1) = [Construct c v r]))"
    if "(k, Source r) \<in> set (syncs this1)" for k r
    using ent1 [OF that] by (auto simp: entry)
  show ?case
  proof (cases ?o1)
    case (Throws e s1)
    with st1 have s1: "s1 = (w1, this1)" by simp
    have run: "addInput_object registry (entry # rest) (w, this) = Throws e (w1, this1)"
      by (simp add: entry Throws s1)
    show ?thesis
      using run le1 io1 old1 ent1'
      by (intro exI [of _ w1] exI [of _ this1]) simp
  next
    case (Returns s1)
    with st1 have s1: "s1 = (w1, this1)" by simp
    with Returns have ret1: "?o1 = Returns (w1, this1)" by simp
    let ?o = "addInput_object registry rest (w1, this1)"
    from Cons.IH [OF ok1 [OF ret1]]
    obtain w' this' where
      st2: "state_of ?o = (w', this')"
      and ok2: "?o = Returns (w', this') \<longrightarrow> state_ok (w', this')"
      and le2: "next_ref w1 \<le> next_ref w'"
      and io2: "eventInput this' = eventInput this1" "eventOutput this' = eventOutput this1"
      and old2: "\<And>r. r < next_ref w1 \<Longrightarrow> lifecycle r (calls w') = lifecycle r (calls w1)"
      and ent2: "\<And>k r. (k, Source r) \<in> set (syncs this') \<Longrightarrow>
                 (k, Source r) \<in> set (syncs this1)
                 \<or> (next_ref w1 \<le> r \<and> r < next_ref w'
                    \<and> (\<exists>c v. registry k = Some c \<and> (k, v) \<in> set rest
                          \<and> lifecycle r (calls w') = [Construct c v r]))"
      by blast
    have run: "addInput_object registry (entry # rest) (w, this) = ?o"
      by (simp add: entry ret1)
    have old: "lifecycle r (calls w') = lifecycle r (calls w)" if "r < next_ref w" for r
      using that le1 old1 [of r] old2 [of r] by simp
    have ent: "(k, Source r) \<in> set (syncs this)
               \<or> (next_ref w \<le> r \<and> r < next_ref w'
                  \<and> (\<exists>c v. registry k = Some c \<and> (k, v) \<in> set (entry # rest)
                        \<and> lifecycle r (calls w') = [Construct c v r]))"
      if "(k, Source r) \<in> set (syncs this')" for k r
    proof -
      from ent2 [OF that] show ?thesis
      proof
        assume "(k, Source r) \<in> set (syncs this1)"
        from ent1' [OF this] show ?thesis
        proof
          assume "(k, Source r) \<in> set (syncs this)"
          then show ?thesis ..
        next
          assume new: "next_ref w \<le> r \<and> r < next_ref w1
                    \<and> (\<exists>c v. registry k = Some c \<and> (k, v) \<in> set (entry # rest)
                          \<and> lifecycle r (calls w1) = [Construct c v r])"
          then obtain c v where c: "registry k = Some c"
            and v: "(k, v) \<in> set (entry # rest)"
            and l: "lifecycle r (calls w1) = [Construct c v r]" by blast
          from new have "lifecycle r (calls w') = lifecycle r (calls w1)"
            by (intro old2) simp
          with l have "lifecycle r (calls w') = [Construct c v r]" by simp
          moreover from new le2 have "next_ref w \<le> r \<and> r < next_ref w'" by simp
          ultimately show ?thesis using c v by blast
        qed
      next
        assume new: "next_ref w1 \<le> r \<and> r < next_ref w'
                    \<and> (\<exists>c v. registry k = Some c \<and> (k, v) \<in> set rest
                          \<and> lifecycle r (calls w') = [Construct c v r])"
        then obtain c v where "registry k = Some c" "(k, v) \<in> set (entry # rest)"
          "lifecycle r (calls w') = [Construct c v r]" by auto
        moreover from new le1 have "next_ref w \<le> r \<and> r < next_ref w'" by simp
        ultimately show ?thesis by blast
      qed
    qed
    from le1 le2 have le: "next_ref w \<le> next_ref w'" by simp
    from io1 io2 have io: "eventInput this' = eventInput this"
      "eventOutput this' = eventOutput this" by simp_all
    have ents: "\<forall>k r. (k, Source r) \<in> set (syncs this') \<longrightarrow>
                 (k, Source r) \<in> set (syncs this)
                 \<or> (next_ref w \<le> r \<and> r < next_ref w'
                    \<and> (\<exists>c v. registry k = Some c \<and> (k, v) \<in> set (entry # rest)
                          \<and> lifecycle r (calls w') = [Construct c v r]))"
      using ent by blast
    have olds: "\<forall>r. r < next_ref w \<longrightarrow> lifecycle r (calls w') = lifecycle r (calls w)"
      using old by blast
    show ?thesis
      unfolding run using st2 ok2 le io olds ents
      by (intro exI [of _ w'] exI [of _ this']) (intro conjI; assumption)
  qed
qed

text \<open>
  On a well-formed state \<^verbatim>\<open>setOptions\<close> returns, having appended one call per sync
  instance of the source map and nothing else.
\<close>

lemma setOptions_loop_calls:
  "PlainObject \<notin> snd ` set al \<Longrightarrow>
   setOptions_loop options al w =
     Returns (w\<lparr>calls := calls w @ map (\<lambda>r. SetOptions r options) (source_refs al)\<rparr>)"
  by (induction options al w rule: setOptions_loop.induct) (auto simp: invoke_def)

lemma setOptions_loop_plain:
  "setOptions_loop options ((key, PlainObject) # rest) w = Throws TypeError w"
  by simp

lemma lifecycle_SetOptions_other:
  "r \<notin> set rs \<Longrightarrow> lifecycle r (map (\<lambda>r'. SetOptions r' options) rs) = []"
  by (induction rs) auto

lemma lifecycle_SetOptions_attached:
  "distinct rs \<Longrightarrow> r \<in> set rs \<Longrightarrow>
   lifecycle r (map (\<lambda>r'. SetOptions r' options) rs) = [SetOptions r options]"
  by (induction rs) (auto simp: lifecycle_SetOptions_other)

lemma setOptions_returns:
  "state_ok (w, this) \<Longrightarrow>
   setOptions options (w, this) =
     Returns (w\<lparr>calls := calls w @ map (\<lambda>r. SetOptions r options) (source_refs (syncs this))\<rparr>,
              this)"
  by (simp add: setOptions_def setOptions_loop_calls state_ok_def)


text \<open>The constructor's first step: two new event handlers and an empty source map.\<close>

lemma fresh_handlers_eq:
  "fresh_handlers w =
     (w\<lparr>next_ref := Suc (Suc (next_ref w)),
        calls := calls w @ [NewEventHandler (next_ref w), NewEventHandler (Suc (next_ref w)),
                            SetInputHandler (next_ref w), SetOutputHandler (Suc (next_ref w))]\<rparr>,
      \<lparr>eventInput = next_ref w, eventOutput = Suc (next_ref w), syncs = []\<rparr>)"
  by (simp add: fresh_handlers_def alloc_def invoke_def)

lemma fresh_handlers_ok: "world_ok w \<Longrightarrow> state_ok (fresh_handlers w)"
  by (simp add: fresh_handlers_eq state_ok_def world_ok_extend)

section \<open>Setting options\<close>



section \<open>The constructor\<close>

text \<open>
  Where no key of \<^verbatim>\<open>syncs\<close> is an inherited name that the registry does not bind, the
  constructor returns: it allocates two new event handlers as sinks, starts with an empty
  source map, performs \<^verbatim>\<open>addInput(syncs)\<close> if \<^verbatim>\<open>syncs\<close> is truthy and afterwards
  \<^verbatim>\<open>setOptions(options)\<close> if \<^verbatim>\<open>options\<close> is truthy. Every source in the map at the end was
  constructed by the sync class of its key with the options of its entry and then, if
  \<^verbatim>\<open>options\<close> is truthy, received \<^verbatim>\<open>options\<close>, and nothing else.
\<close>

lemma GenericInput_returns:
  assumes "world_ok w"
    and names: "\<forall>k \<in> fst ` set (entries_of a). registry k = None \<longrightarrow> object_prototype k = None"
  shows "\<exists>w1 this1 w' this'.
           syncs (snd (fresh_handlers w)) = []
           \<and> eventInput (snd (fresh_handlers w)) = next_ref w
           \<and> eventOutput (snd (fresh_handlers w)) = Suc (next_ref w)
           \<and> (\<forall>c \<in> set (calls w).
                 next_ref w \<notin> set (refs_of c) \<and> Suc (next_ref w) \<notin> set (refs_of c))
           \<and> (if provided a then addInput registry a (fresh_handlers w)
               else Returns (fresh_handlers w)) = Returns (w1, this1)
           \<and> (if truthy options then setOptions options (w1, this1)
               else Returns (w1, this1)) = Returns (w', this')
           \<and> GenericInput registry a options w = Returns (w', this')
           \<and> eventInput this' = next_ref w \<and> eventOutput this' = Suc (next_ref w)
           \<and> (\<forall>k r. (k, Source r) \<in> set (syncs this') \<longrightarrow>
                 (\<exists>c v. registry k = Some c \<and> (k, v) \<in> set (entries_of a)
                    \<and> lifecycle r (calls w') =
                        Construct c v r # (if truthy options then [SetOptions r options] else [])))"
proof -
  obtain w0 this0 where s0: "fresh_handlers w = (w0, this0)"
    by (cases "fresh_handlers w")
  from assms(1) have "state_ok (fresh_handlers w)" by (rule fresh_handlers_ok)
  then have ok0: "state_ok (w0, this0)" by (simp add: s0)
  have this0: "syncs this0 = []" "eventInput this0 = next_ref w"
    "eventOutput this0 = Suc (next_ref w)"
    using s0 by (auto simp: fresh_handlers_eq)
  have fresh: "\<forall>c \<in> set (calls w).
                 next_ref w \<notin> set (refs_of c) \<and> Suc (next_ref w) \<notin> set (refs_of c)"
    using assms(1) by (fastforce simp: world_ok_def)
  have "\<exists>w1 this1.
          (if provided a then addInput registry a (w0, this0) else Returns (w0, this0))
            = Returns (w1, this1)
          \<and> state_ok (w1, this1)
          \<and> eventInput this1 = eventInput this0 \<and> eventOutput this1 = eventOutput this0
          \<and> (\<forall>k r. (k, Source r) \<in> set (syncs this1) \<longrightarrow>
                (\<exists>c v. registry k = Some c \<and> (k, v) \<in> set (entries_of a)
                   \<and> lifecycle r (calls w1) = [Construct c v r]))"
  proof (cases "provided a")
    case True
    let ?o = "addInput_object registry (entries_of a) (w0, this0)"
    from addInput_object_constructions [OF names, of "(w0, this0)"]
    obtain s1 where ret: "?o = Returns s1" by blast
    from addInput_object_steps [OF ok0, of registry "entries_of a"]
    obtain w1 this1 where
      st: "state_of ?o = (w1, this1)"
      and ok: "?o = Returns (w1, this1) \<longrightarrow> state_ok (w1, this1)"
      and io: "eventInput this1 = eventInput this0" "eventOutput this1 = eventOutput this0"
      and ent: "\<And>k r. (k, Source r) \<in> set (syncs this1) \<Longrightarrow>
                 (k, Source r) \<in> set (syncs this0)
                 \<or> (next_ref w0 \<le> r \<and> r < next_ref w1
                    \<and> (\<exists>c v. registry k = Some c \<and> (k, v) \<in> set (entries_of a)
                          \<and> lifecycle r (calls w1) = [Construct c v r]))"
      by blast
    from ret st have ret': "?o = Returns (w1, this1)" by simp
    with ok have ok1: "state_ok (w1, this1)" by blast
    have "\<exists>c v. registry k = Some c \<and> (k, v) \<in> set (entries_of a)
                   \<and> lifecycle r (calls w1) = [Construct c v r]"
      if "(k, Source r) \<in> set (syncs this1)" for k r
      using ent [OF that] this0(1) by auto
    with True ret' ok1 io show ?thesis
      unfolding addInput_entries by (intro exI [of _ w1] exI [of _ this1]) simp
  next
    case False
    with ok0 this0(1) show ?thesis by simp
  qed
  then obtain w1 this1 where
    run1: "(if provided a then addInput registry a (w0, this0) else Returns (w0, this0))
             = Returns (w1, this1)"
    and ok1: "state_ok (w1, this1)"
    and io1: "eventInput this1 = eventInput this0" "eventOutput this1 = eventOutput this0"
    and ent1: "\<And>k r. (k, Source r) \<in> set (syncs this1) \<Longrightarrow>
                (\<exists>c v. registry k = Some c \<and> (k, v) \<in> set (entries_of a)
                   \<and> lifecycle r (calls w1) = [Construct c v r])"
    by blast
  let ?ws = "w1\<lparr>calls := calls w1 @ map (\<lambda>r. SetOptions r options) (source_refs (syncs this1))\<rparr>"
  let ?w' = "if truthy options then ?ws else w1"
  have run2: "(if truthy options then setOptions options (w1, this1) else Returns (w1, this1))
                = Returns (?w', this1)"
    using ok1 by (simp add: setOptions_returns)
  have run: "GenericInput registry a options w = Returns (?w', this1)"
    by (simp only: GenericInput_def s0 run1 bind.simps run2)
  from ok1 have dv: "distinct (source_refs (syncs this1))"
    by (simp add: state_ok_def)
  have ent: "\<exists>c v. registry k = Some c \<and> (k, v) \<in> set (entries_of a)
               \<and> lifecycle r (calls ?w') =
                   Construct c v r # (if truthy options then [SetOptions r options] else [])"
    if "(k, Source r) \<in> set (syncs this1)" for k r
  proof -
    from ent1 [OF that] obtain c v where c: "registry k = Some c"
      and v: "(k, v) \<in> set (entries_of a)"
      and l: "lifecycle r (calls w1) = [Construct c v r]" by blast
    from that have "r \<in> set (source_refs (syncs this1))"
      by (auto simp: source_refs_iff)
    with dv have "lifecycle r (map (\<lambda>r'. SetOptions r' options) (source_refs (syncs this1)))
                    = [SetOptions r options]"
      by (intro lifecycle_SetOptions_attached)
    with l have "lifecycle r (calls ?w') =
                   Construct c v r # (if truthy options then [SetOptions r options] else [])"
      by simp
    with c v show ?thesis by blast
  qed
  have sinks: "eventInput this1 = next_ref w" "eventOutput this1 = Suc (next_ref w)"
    using io1 this0 by simp_all
  have ents: "\<forall>k r. (k, Source r) \<in> set (syncs this1) \<longrightarrow>
                 (\<exists>c v. registry k = Some c \<and> (k, v) \<in> set (entries_of a)
                    \<and> lifecycle r (calls ?w') =
                        Construct c v r # (if truthy options then [SetOptions r options] else []))"
    using ent by blast
  have start: "syncs (snd (fresh_handlers w)) = []"
    "eventInput (snd (fresh_handlers w)) = next_ref w"
    "eventOutput (snd (fresh_handlers w)) = Suc (next_ref w)"
    using this0 by (simp_all add: s0)
  from run1 have run1': "(if provided a then addInput registry a (fresh_handlers w)
               else Returns (fresh_handlers w)) = Returns (w1, this1)"
    by (simp only: s0)
  show ?thesis
    using start fresh run1' run2 run sinks ents
    by (intro exI [of _ w1] exI [of _ this1] exI [of _ ?w']) (intro conjI; assumption)
qed

text \<open>
  C7: the constructor should perform \<^verbatim>\<open>addInput(syncs)\<close> and then \<^verbatim>\<open>setOptions(options)\<close>,
  so that every source receives its construction options and then the shared ones. With
  \<^verbatim>\<open>mouse\<close> registered, \<^verbatim>\<open>new GenericInput({toString: o7, mouse: o8}, o9)\<close> raises in
  \<^verbatim>\<open>addInput\<close> at the inherited name \<^verbatim>\<open>toString\<close>: \<^verbatim>\<open>mouse\<close> is never constructed,
  \<^verbatim>\<open>setOptions\<close> is never performed, and no aggregator results.
\<close>

theorem GenericInput_inherited_name_aborts:
  "GenericInput [''mouse'' \<mapsto> Factory 0]
     (SyncObject [(''toString'', Obj 7), (''mouse'', Obj 8)]) (Obj 9)
     \<lparr>next_ref = 0, calls = []\<rparr>
   = Throws TypeError
       (\<lparr>next_ref = 2,
          calls = [NewEventHandler 0, NewEventHandler 1, SetInputHandler 0,
                   SetOutputHandler 1]\<rparr>,
        \<lparr>eventInput = 0, eventOutput = 1, syncs = []\<rparr>)"
  by (simp add: GenericInput_def fresh_handlers_eq addInput_def addSingleInput_def
      get_property_def object_prototype_def)

end
